theory Spec2Isabelle
  imports Complex_Main "HOL-Library.Sublist" "HOL-Library.Multiset"
    "HOL-Library.Product_Lexorder" "HOL-Library.Option_ord"
begin

section \<open>Values of the program\<close>

text \<open>
  The aggregation script \<^verbatim>\<open>reddit_population.py\<close> handles documents as they come back from
  the search index: values built from \<^verbatim>\<open>None\<close>, booleans, integers, floats, strings,
  lists and dictionaries with string keys. The type parameter \<open>'f\<close> is the carrier of
  Python's \<^verbatim>\<open>float\<close>; no property of floating-point arithmetic is assumed, its operations
  are the fields of \<open>float_ops\<close>. A dictionary is an association list read with
  \<open>map_of\<close>.
\<close>

datatype 'f pyval =
    PNone
  | PBool bool
  | PInt int
  | PFloat 'f
  | PStr string
  | PList "'f pyval list"
  | PDict "(string \<times> 'f pyval) list"

type_synonym 'f pydict = "(string \<times> 'f pyval) list"

text \<open>
  The exceptions the modelled code can meet. All of them derive from \<^verbatim>\<open>Exception\<close>;
  \<open>OtherError\<close> stands for any further \<^verbatim>\<open>Exception\<close> an extractor of
  \<^verbatim>\<open>utils\<close> may raise.
\<close>

datatype error = AttributeError | TypeError | ValueError | OverflowError | OtherError

text \<open>
  The float primitives used by the script: the constants \<^verbatim>\<open>0.0\<close> and \<^verbatim>\<open>1.0\<close>,
  addition, the test \<^verbatim>\<open>x == 0.0\<close> behind \<^verbatim>\<open>bool(x)\<close>, and the two conversions behind
  \<^verbatim>\<open>float(v)\<close>: from an integer (\<open>None\<close>: \<^verbatim>\<open>OverflowError\<close>) and from a string
  (\<open>None\<close>: \<^verbatim>\<open>ValueError\<close>).
\<close>

record 'f float_ops =
  float_zero :: 'f
  float_one :: 'f
  float_add :: "'f \<Rightarrow> 'f \<Rightarrow> 'f"
  float_is_zero :: "'f \<Rightarrow> bool"
  float_of_int :: "int \<Rightarrow> 'f option"
  float_of_str :: "string \<Rightarrow> 'f option"

text \<open>Truth value of an object, as \<^verbatim>\<open>if v:\<close> and \<^verbatim>\<open>v or w\<close> test it.\<close>

fun truthy :: "'f float_ops \<Rightarrow> 'f pyval \<Rightarrow> bool" where
  "truthy ops PNone = False"
| "truthy ops (PBool b) = b"
| "truthy ops (PInt i) = (i \<noteq> 0)"
| "truthy ops (PFloat x) = (\<not> float_is_zero ops x)"
| "truthy ops (PStr s) = (s \<noteq> [])"
| "truthy ops (PList xs) = (xs \<noteq> [])"
| "truthy ops (PDict d) = (d \<noteq> [])"

text \<open>\<^verbatim>\<open>d.get(k, default)\<close> on a dictionary.\<close>

definition dict_get :: "'f pydict \<Rightarrow> string \<Rightarrow> 'f pyval \<Rightarrow> 'f pyval" where
  "dict_get d k dflt = (case map_of d k of None \<Rightarrow> dflt | Some v \<Rightarrow> v)"

text \<open>
  \<^verbatim>\<open>v.get(k, default)\<close> on an arbitrary object: only a dictionary has the method, every
  other value of the model raises \<^verbatim>\<open>AttributeError\<close>.
\<close>

fun py_get :: "'f pyval \<Rightarrow> string \<Rightarrow> 'f pyval \<Rightarrow> error + 'f pyval" where
  "py_get (PDict d) k dflt = Inr (dict_get d k dflt)"
| "py_get v k dflt = Inl AttributeError"

text \<open>
  \<^verbatim>\<open>float(v)\<close>: booleans and integers convert, a float is returned as it is, a string is
  parsed, anything else is a \<^verbatim>\<open>TypeError\<close>.
\<close>

fun py_float :: "'f float_ops \<Rightarrow> 'f pyval \<Rightarrow> error + 'f" where
  "py_float ops PNone = Inl TypeError"
| "py_float ops (PBool b) = Inr (if b then float_one ops else float_zero ops)"
| "py_float ops (PInt i) =
     (case float_of_int ops i of None \<Rightarrow> Inl OverflowError | Some x \<Rightarrow> Inr x)"
| "py_float ops (PFloat x) = Inr x"
| "py_float ops (PStr s) =
     (case float_of_str ops s of None \<Rightarrow> Inl ValueError | Some x \<Rightarrow> Inr x)"
| "py_float ops (PList xs) = Inl TypeError"
| "py_float ops (PDict d) = Inl TypeError"

section \<open>The format classifier\<close>

text \<open>
  \<^verbatim>\<open>def safe_source(hit): return hit.get("_source", {}) or {}\<close>
\<close>

definition safe_source :: "'f float_ops \<Rightarrow> 'f pydict \<Rightarrow> 'f pyval" where
  "safe_source ops hit =
     (let s = dict_get hit ''_source'' (PDict []) in if truthy ops s then s else PDict [])"

text \<open>
  \<^verbatim>\<open>re.match(r"^https?://i\.redd\.it", url)\<close>, as a truth value. The pattern is a literal
  with one optional letter, matched at the start of the string, so it matches exactly the
  strings that begin with one of two literals. \<^verbatim>\<open>re.match\<close> raises \<^verbatim>\<open>TypeError\<close> when
  its second argument is not a string.
\<close>

definition reddit_image_url :: "string \<Rightarrow> bool" where
  "reddit_image_url url \<longleftrightarrow>
     prefix ''http://i.redd.it'' url \<or> prefix ''https://i.redd.it'' url"

fun re_match_image :: "'f pyval \<Rightarrow> error + bool" where
  "re_match_image (PStr s) = Inr (reddit_image_url s)"
| "re_match_image v = Inl TypeError"

text \<open>
  \<^verbatim>\<open>
  def detect_format(hit):
      src = safe_source(hit)
      if src.get("is_video"):
          return "video"
      url = src.get("url", "") or ""
      if re.match(r"^https?://i\.redd\.it", url) or src.get("is_gallery"):
          return "image"
      return "text"
  \<close>
  \<open>Inl\<close> is the exception that leaves the function.
\<close>

definition detect_format :: "'f float_ops \<Rightarrow> 'f pydict \<Rightarrow> error + string" where
  "detect_format ops hit =
     (let src = safe_source ops hit in
      case py_get src ''is_video'' PNone of
        Inl e \<Rightarrow> Inl e
      | Inr is_video \<Rightarrow>
          if truthy ops is_video then Inr ''video''
          else
            (case py_get src ''url'' (PStr '''') of
               Inl e \<Rightarrow> Inl e
             | Inr u \<Rightarrow>
                 let url = (if truthy ops u then u else PStr '''') in
                 (case re_match_image url of
                    Inl e \<Rightarrow> Inl e
                  | Inr m \<Rightarrow>
                      if m then Inr ''image''
                      else
                        (case py_get src ''is_gallery'' PNone of
                           Inl e \<Rightarrow> Inl e
                         | Inr is_gallery \<Rightarrow>
                             if truthy ops is_gallery then Inr ''image'' else Inr ''text''))))"

text \<open>
  \<^verbatim>\<open>
  def accumulate_ids(ids_list, value):
      if value is None: return
      if isinstance(value, list): ids_list.extend(value)
      else: ids_list.append(value)
  \<close>
\<close>

fun accumulate_ids :: "'f pyval list \<Rightarrow> 'f pyval \<Rightarrow> 'f pyval list" where
  "accumulate_ids ids_list PNone = ids_list"
| "accumulate_ids ids_list (PList vs) = ids_list @ vs"
| "accumulate_ids ids_list v = ids_list @ [v]"

section \<open>The aggregation loop\<close>

text \<open>
  The four extractors \<^verbatim>\<open>ut.timestamp\<close>, \<^verbatim>\<open>ut.landing_pages\<close>, \<^verbatim>\<open>ut.key_ids\<close> and
  \<^verbatim>\<open>ut.impressions\<close> belong to the module \<^verbatim>\<open>utils\<close>, which the script imports and
  does not define. The loop calls each of them once per document, so a document of the
  stream is the hit together with the outcome of those four calls: \<open>Inr v\<close> when the call
  returned \<open>v\<close>, \<open>Inl e\<close> when it raised the exception \<open>e\<close>. Timestamps have a type
  \<open>'t\<close> of their own, and \<open>None\<close> is Python's \<^verbatim>\<open>None\<close>.
\<close>

record ('f, 't) ut_calls =
  ut_timestamp :: "error + 't option"
  ut_landing_pages :: "error + 'f pyval"
  ut_key_ids :: "error + 'f pyval"
  ut_impressions :: "error + 'f pyval"

type_synonym ('f, 't) doc = "'f pydict \<times> ('f, 't) ut_calls"

text \<open>
  \<^verbatim>\<open>try: x = call() except Exception: x = None\<close>, the pattern around every extractor call
  (\<^verbatim>\<open>VERBOSE\<close> is \<^verbatim>\<open>False\<close>, and the warning it would print is no part of the state).
\<close>

definition guarded :: "error + 'a \<Rightarrow> 'a \<Rightarrow> 'a" where
  "guarded r none = (case r of Inl e \<Rightarrow> none | Inr v \<Rightarrow> v)"

text \<open>The local variables of \<^verbatim>\<open>main\<close> that the loop updates, under their names there.\<close>

record ('f, 't) accumulators =
  timestamp_list :: "('f pyval \<times> 't option) list"
  format_list :: "('f pyval \<times> string) list"
  landing_pages :: "('f pyval \<times> 'f pyval) list"
  landing_pages2 :: "'f pyval list"
  ids :: "'f pyval list"
  impressions :: "('f pyval \<times> 'f pyval) list"
  v_ct :: nat
  i_ct :: nat
  t_ct :: nat
  imp_ct :: 'f
  doc_count :: nat

definition initial :: "'f float_ops \<Rightarrow> ('f, 't) accumulators" where
  "initial ops =
     \<lparr>timestamp_list = [], format_list = [], landing_pages = [], landing_pages2 = [],
      ids = [], impressions = [], v_ct = 0, i_ct = 0, t_ct = 0,
      imp_ct = float_zero ops, doc_count = 0\<rparr>"

text \<open>
  \<^verbatim>\<open>
  if filtered_urls:
      landing_pages.append([doc_id, filtered_urls])
      if isinstance(filtered_urls, list): landing_pages2.extend(filtered_urls)
      else: landing_pages2.append(filtered_urls)
  \<close>
\<close>

fun flat_items :: "'f pyval \<Rightarrow> 'f pyval list" where
  "flat_items (PList us) = us"
| "flat_items v = [v]"

definition add_landing_pages ::
  "'f float_ops \<Rightarrow> 'f pyval \<Rightarrow> 'f pyval \<Rightarrow> ('f, 't) accumulators \<Rightarrow> ('f, 't) accumulators" where
  "add_landing_pages ops doc_id filtered_urls st =
     (if truthy ops filtered_urls
      then st\<lparr>landing_pages := landing_pages st @ [(doc_id, filtered_urls)],
              landing_pages2 := landing_pages2 st @ flat_items filtered_urls\<rparr>
      else st)"

text \<open>
  \<^verbatim>\<open>
  if fmt == "video": v_ct += 1
  elif fmt == "image": i_ct += 1
  else: t_ct += 1
  \<close>
\<close>

definition count_format :: "string \<Rightarrow> ('f, 't) accumulators \<Rightarrow> ('f, 't) accumulators" where
  "count_format fmt st =
     (if fmt = ''video'' then st\<lparr>v_ct := v_ct st + 1\<rparr>
      else if fmt = ''image'' then st\<lparr>i_ct := i_ct st + 1\<rparr>
      else st\<lparr>t_ct := t_ct st + 1\<rparr>)"

text \<open>
  \<^verbatim>\<open>
  try:
      if imp_val is not None:
          imp_ct += float(imp_val)
  except Exception:
      if imp_val:
          imp_ct += 1
  \<close>
  The only call of the \<^verbatim>\<open>try\<close> block that can raise is \<^verbatim>\<open>float\<close>.
\<close>

definition add_impression :: "'f float_ops \<Rightarrow> 'f \<Rightarrow> 'f pyval \<Rightarrow> 'f" where
  "add_impression ops ct imp_val =
     (if imp_val \<noteq> PNone
      then (case py_float ops imp_val of
              Inr x \<Rightarrow> float_add ops ct x
            | Inl e \<Rightarrow> if truthy ops imp_val then float_add ops ct (float_one ops) else ct)
      else ct)"

text \<open>
  The body of \<^verbatim>\<open>for hit in docs:\<close>. The call of \<^verbatim>\<open>detect_format\<close> is the one call of
  the body outside a \<^verbatim>\<open>try\<close>: its exception leaves the loop and \<^verbatim>\<open>main\<close>.
\<close>

definition process_hit ::
  "'f float_ops \<Rightarrow> ('f, 't) doc \<Rightarrow> ('f, 't) accumulators \<Rightarrow> error + ('f, 't) accumulators" where
  "process_hit ops d st =
     (let hit = fst d; calls = snd d;
          st1 = st\<lparr>doc_count := doc_count st + 1\<rparr>;
          doc_id = dict_get hit ''_id'' PNone;
          ts = guarded (ut_timestamp calls) None;
          st2 = st1\<lparr>timestamp_list := timestamp_list st1 @ [(doc_id, ts)]\<rparr>
      in case detect_format ops hit of
           Inl e \<Rightarrow> Inl e
         | Inr fmt \<Rightarrow>
             let st3 = st2\<lparr>format_list := format_list st2 @ [(doc_id, fmt)]\<rparr>;
                 st4 = count_format fmt st3;
                 filtered_urls = guarded (ut_landing_pages calls) PNone;
                 st5 = add_landing_pages ops doc_id filtered_urls st4;
                 key_ids_value = guarded (ut_key_ids calls) PNone;
                 st6 = st5\<lparr>ids := accumulate_ids (ids st5) key_ids_value\<rparr>;
                 imp_val = guarded (ut_impressions calls) PNone;
                 st7 = st6\<lparr>impressions := impressions st6 @ [(doc_id, imp_val)]\<rparr>
             in Inr (st7\<lparr>imp_ct := add_impression ops (imp_ct st7) imp_val\<rparr>))"

fun main_loop ::
  "'f float_ops \<Rightarrow> ('f, 't) accumulators \<Rightarrow> ('f, 't) doc list \<Rightarrow> error + ('f, 't) accumulators" where
  "main_loop ops st [] = Inr st"
| "main_loop ops st (d # ds) =
     (case process_hit ops d st of Inl e \<Rightarrow> Inl e | Inr st' \<Rightarrow> main_loop ops st' ds)"

section \<open>The summary: sorting the timestamps and the date range\<close>

text \<open>
  \<^verbatim>\<open>timestamp_list.sort(key=lambda x: (x[1] is None, x[1]))\<close>

  The key of an entry is a pair. Python compares two tuples at the first position where
  they are not equal; \<^verbatim>\<open>None\<close> equals \<^verbatim>\<open>None\<close>, and ordering \<^verbatim>\<open>None\<close> against a
  timestamp raises \<^verbatim>\<open>TypeError\<close>. The timestamps themselves are ordered by the linear
  order of their type.
\<close>

definition sort_key_of :: "'i \<times> 't option \<Rightarrow> bool \<times> 't option" where
  "sort_key_of x = (snd x = None, snd x)"

definition key_lt :: "bool \<times> ('t::linorder) option \<Rightarrow> bool \<times> 't option \<Rightarrow> error + bool" where
  "key_lt a b =
     (if fst a \<noteq> fst b then Inr (fst a < fst b)
      else (case (snd a, snd b) of
              (None, None) \<Rightarrow> Inr False
            | (Some x, Some y) \<Rightarrow> Inr (x < y)
            | _ \<Rightarrow> Inl TypeError))"

text \<open>
  \<^verbatim>\<open>list.sort\<close> is a builtin: a stable sort that compares keys with \<^verbatim>\<open><\<close> only and
  lets an exception of the comparison through. It is modelled by a stable insertion sort
  on the same comparison.
\<close>

fun sort_insert ::
  "'i \<times> ('t::linorder) option \<Rightarrow> ('i \<times> 't option) list \<Rightarrow> error + ('i \<times> 't option) list" where
  "sort_insert x [] = Inr [x]"
| "sort_insert x (y # ys) =
     (case key_lt (sort_key_of y) (sort_key_of x) of
        Inl e \<Rightarrow> Inl e
      | Inr True \<Rightarrow> (case sort_insert x ys of Inl e \<Rightarrow> Inl e | Inr zs \<Rightarrow> Inr (y # zs))
      | Inr False \<Rightarrow> Inr (x # y # ys))"

fun list_sort :: "('i \<times> ('t::linorder) option) list \<Rightarrow> error + ('i \<times> 't option) list" where
  "list_sort [] = Inr []"
| "list_sort (x # xs) = (case list_sort xs of Inl e \<Rightarrow> Inl e | Inr ys \<Rightarrow> sort_insert x ys)"

text \<open>
  \<^verbatim>\<open>
  if timestamp_list:
      start_date = timestamp_list[0]
      non_none = [t for t in timestamp_list if t[1] is not None]
      last_date = non_none[-1] if non_none else timestamp_list[-1]
  else:
      start_date = None
      last_date = None
  \<close>
  The result \<open>None\<close> is the \<^verbatim>\<open>None\<close> stored for an empty list.
\<close>

definition date_range ::
  "('i \<times> 't option) list \<Rightarrow> ('i \<times> 't option) option \<times> ('i \<times> 't option) option" where
  "date_range tsl =
     (case tsl of
        [] \<Rightarrow> (None, None)
      | first # rest \<Rightarrow>
          (let non_none = filter (\<lambda>t. snd t \<noteq> None) tsl
           in (Some first, Some (if non_none \<noteq> [] then last non_none else last tsl))))"

text \<open>The dictionary \<^verbatim>\<open>data\<close> that \<^verbatim>\<open>main\<close> writes out, without its two constant tags.\<close>

record ('f, 't) report =
  key_ids :: "'f pyval list"
  start_date :: "('f pyval \<times> 't option) option"
  last_date :: "('f pyval \<times> 't option) option"
  main_format :: "(string \<times> nat) list"
  landing_pages_out :: "'f pyval list"
  impressions_total :: 'f
  impressions_detail :: "('f pyval \<times> 'f pyval) list"
  doc_count_processed :: nat

definition main :: "'f float_ops \<Rightarrow> ('f, 't::linorder) doc list \<Rightarrow> error + ('f, 't) report" where
  "main ops docs =
     (case main_loop ops (initial ops) docs of
        Inl e \<Rightarrow> Inl e
      | Inr st \<Rightarrow>
          (case list_sort (timestamp_list st) of
             Inl e \<Rightarrow> Inl e
           | Inr sorted_list \<Rightarrow>
               Inr \<lparr>key_ids = ids st,
                    start_date = fst (date_range sorted_list),
                    last_date = snd (date_range sorted_list),
                    main_format = [(''video'', v_ct st), (''image'', i_ct st), (''text'', t_ct st)],
                    landing_pages_out = landing_pages2 st,
                    impressions_total = imp_ct st,
                    impressions_detail = impressions st,
                    doc_count_processed = doc_count st\<rparr>))"

section \<open>An exact instance of the float primitives, and the scenarios\<close>

text \<open>
  For evaluating the model on concrete streams: floats as rationals with exact addition.
  On integers below \<open>2 ^ 53\<close> in magnitude, exact arithmetic and double-precision
  arithmetic give the same results, and the streams below stay within them. Of the
  strings, the instance converts the non-empty strings of decimal digits; \<^verbatim>\<open>float\<close>
  accepts more (signs, fractions, exponents, \<^verbatim>\<open>inf\<close>, \<^verbatim>\<open>nan\<close>), none of which occurs
  below, and like the instance it raises \<^verbatim>\<open>ValueError\<close> on the empty string and on a
  word such as \<^verbatim>\<open>"bad"\<close>.
\<close>

definition decimal_of_str :: "string \<Rightarrow> rat option" where
  "decimal_of_str s =
     (if s \<noteq> [] \<and> list_all (\<lambda>c. c \<in> set ''0123456789'') s
      then Some (of_nat (foldl (\<lambda>n c. 10 * n + (of_char c - 48)) 0 s))
      else None)"

definition exact_ops :: "rat float_ops" where
  "exact_ops =
     \<lparr>float_zero = 0, float_one = 1, float_add = (+), float_is_zero = (\<lambda>x. x = 0),
      float_of_int = (\<lambda>i. Some (of_int i)), float_of_str = decimal_of_str\<rparr>"

text \<open>The outcome of four extractor calls that returned the given values.\<close>

definition returned ::
  "'t option \<Rightarrow> 'f pyval \<Rightarrow> 'f pyval \<Rightarrow> 'f pyval \<Rightarrow> ('f, 't) ut_calls" where
  "returned ts lp ki imp =
     \<lparr>ut_timestamp = Inr ts, ut_landing_pages = Inr lp, ut_key_ids = Inr ki,
      ut_impressions = Inr imp\<rparr>"

text \<open>
  The stream of the specification's first scenario: a video with timestamp 100, an
  image with timestamp 50, and a document without fields and without timestamp.
\<close>

definition three_records :: "(rat, nat) doc list" where
  "three_records =
     [([(''_id'', PInt 1), (''_source'', PDict [(''is_video'', PBool True)])],
       returned (Some 100) PNone PNone PNone),
      ([(''_id'', PInt 2), (''_source'', PDict [(''url'', PStr ''https://i.redd.it/x'')])],
       returned (Some 50) PNone PNone PNone),
      ([(''_id'', PInt 3)], returned None PNone PNone PNone)]"

text \<open>
  The stream of the second scenario: four documents whose impressions are
  \<^verbatim>\<open>10\<close>, \<^verbatim>\<open>"bad"\<close>, \<^verbatim>\<open>None\<close> and \<^verbatim>\<open>5\<close>.
\<close>

definition four_impressions :: "(rat, nat) doc list" where
  "four_impressions =
     [([(''_id'', PInt 1)], returned None PNone PNone (PInt 10)),
      ([(''_id'', PInt 2)], returned None PNone PNone (PStr ''bad'')),
      ([(''_id'', PInt 3)], returned None PNone PNone PNone),
      ([(''_id'', PInt 4)], returned None PNone PNone (PInt 5))]"

section \<open>Quantities the properties are stated with\<close>

text \<open>The value each guarded extractor call leaves in its variable.\<close>

definition imp_val_of :: "('f, 't) doc \<Rightarrow> 'f pyval" where
  "imp_val_of d = guarded (ut_impressions (snd d)) PNone"

definition filtered_urls_of :: "('f, 't) doc \<Rightarrow> 'f pyval" where
  "filtered_urls_of d = guarded (ut_landing_pages (snd d)) PNone"

definition doc_id_of :: "('f, 't) doc \<Rightarrow> 'f pyval" where
  "doc_id_of d = dict_get (fst d) ''_id'' PNone"

text \<open>
  What one impressions value adds to the aggregate: \<open>None\<close> when nothing is added.
\<close>

definition contribution :: "'f float_ops \<Rightarrow> 'f pyval \<Rightarrow> 'f option" where
  "contribution ops v =
     (if v = PNone then None
      else (case py_float ops v of
              Inr x \<Rightarrow> Some x
            | Inl e \<Rightarrow> if truthy ops v then Some (float_one ops) else None))"

text \<open>
  The term the specification gives for one impressions value: its numeric value when it
  is not null and converts, exactly 1 when it is not null and does not convert, 0 when it
  is null. This one definition follows the words of the specification, for comparison
  with the loop.
\<close>

definition specified_term :: "'f float_ops \<Rightarrow> 'f pyval \<Rightarrow> 'f" where
  "specified_term ops v =
     (if v = PNone then float_zero ops
      else (case py_float ops v of Inr x \<Rightarrow> x | Inl e \<Rightarrow> float_one ops))"

text \<open>Float summation from left to right, starting from \<^verbatim>\<open>0.0\<close>.\<close>

definition float_sum :: "'f float_ops \<Rightarrow> 'f list \<Rightarrow> 'f" where
  "float_sum ops xs = foldl (float_add ops) (float_zero ops) xs"

text \<open>
  A payload the classifier can read: the value under \<^verbatim>\<open>_source\<close> is absent, falsy or a
  dictionary, and in the last case \<^verbatim>\<open>is_video\<close> is truthy or \<^verbatim>\<open>url\<close> is absent, falsy
  or a string.
\<close>

definition readable_url :: "'f float_ops \<Rightarrow> 'f pyval \<Rightarrow> bool" where
  "readable_url ops u = (case u of PStr s \<Rightarrow> True | _ \<Rightarrow> \<not> truthy ops u)"

definition readable_hit :: "'f float_ops \<Rightarrow> 'f pydict \<Rightarrow> bool" where
  "readable_hit ops hit =
     (case safe_source ops hit of
        PDict src \<Rightarrow>
          truthy ops (dict_get src ''is_video'' PNone)
          \<or> readable_url ops (dict_get src ''url'' (PStr ''''))
      | _ \<Rightarrow> False)"

text \<open>The number of items one landing-pages value adds to the flat list.\<close>

definition item_count :: "'f pyval \<Rightarrow> nat" where
  "item_count v = (case v of PList us \<Rightarrow> length us | _ \<Rightarrow> 1)"

subsection \<open>Further concrete inputs\<close>

text \<open>Timestamp entries with ties and nulls, before and after the sort.\<close>

definition sort_example :: "(nat \<times> nat option) list" where
  "sort_example = [(1, None), (2, Some 5), (3, Some 2), (4, Some 5), (5, None)]"

definition sort_example_sorted :: "(nat \<times> nat option) list" where
  "sort_example_sorted = [(3, Some 2), (2, Some 5), (4, Some 5), (1, None), (5, None)]"

definition all_null_example :: "(nat \<times> nat option) list" where
  "all_null_example = [(2, None), (1, None)]"

text \<open>One document whose impressions value is the empty string.\<close>

definition empty_string_impression :: "(rat, nat) doc list" where
  "empty_string_impression = [([(''_id'', PInt 1)], returned None PNone PNone (PStr ''''))]"

text \<open>
  A document whose timestamp extractor raised, while the other three calls returned two
  landing pages, one key id and the impressions value 3.
\<close>

definition failing_timestamp_doc :: "(rat, nat) doc" where
  "failing_timestamp_doc =
     ([(''_id'', PInt 7)],
      \<lparr>ut_timestamp = Inl OtherError,
       ut_landing_pages = Inr (PList [PStr ''u1'', PStr ''u2'']),
       ut_key_ids = Inr (PStr ''k''),
       ut_impressions = Inr (PInt 3)\<rparr>)"

text \<open>
  A stream with landing pages: a list of two, nothing, a single string, an empty list.
\<close>

definition landing_example :: "(rat, nat) doc list" where
  "landing_example =
     [([(''_id'', PInt 1)], returned None (PList [PStr ''a'', PStr ''b'']) PNone PNone),
      ([(''_id'', PInt 2)], returned None PNone PNone PNone),
      ([(''_id'', PInt 3)], returned None (PStr ''c'') PNone PNone),
      ([(''_id'', PInt 4)], returned None (PList []) PNone PNone)]"

text \<open>
  Two hits with a \<^verbatim>\<open>url\<close> that is not a string: a list holding one URL, as the index
  stores a multi-valued field, and a number beside a gallery flag.
\<close>

definition list_url_hit :: "'f pydict" where
  "list_url_hit =
     [(''_id'', PStr ''p1''),
      (''_source'', PDict [(''url'', PList [PStr ''https://i.redd.it/abc''])])]"

definition gallery_hit :: "'f pydict" where
  "gallery_hit =
     [(''_id'', PStr ''p2''),
      (''_source'', PDict [(''url'', PInt 5), (''is_gallery'', PBool True)])]"

section \<open>Properties of the classifier\<close>

lemma safe_source_falsy:
  "(\<forall>v. map_of hit ''_source'' = Some v \<longrightarrow> \<not> truthy ops v) \<Longrightarrow> safe_source ops hit = PDict []"
  by (auto simp: safe_source_def dict_get_def Let_def split: option.splits)

lemma detect_format_empty_source:
  "safe_source ops hit = PDict [] \<Longrightarrow> detect_format ops hit = Inr ''text''"
  by (simp add: detect_format_def dict_get_def reddit_image_url_def)

text \<open>The classifier returns exactly on the payloads it can read.\<close>

lemma detect_format_readable:
  "(\<exists>fmt. detect_format ops hit = Inr fmt) \<longleftrightarrow> readable_hit ops hit"
  by (cases "safe_source ops hit")
     (auto simp: detect_format_def readable_hit_def readable_url_def Let_def
           split: sum.splits pyval.splits)

lemma detect_format_categories:
  "detect_format ops hit = Inr fmt \<Longrightarrow> fmt = ''video'' \<or> fmt = ''image'' \<or> fmt = ''text''"
  by (auto simp: detect_format_def Let_def split: sum.splits if_splits)

text \<open>
  On a payload it can read, the classifier follows the precedence video, image, text.
\<close>

lemma detect_format_precedence:
  assumes "safe_source ops hit = PDict src"
    and "truthy ops (dict_get src ''is_video'' PNone)
         \<or> readable_url ops (dict_get src ''url'' (PStr ''''))"
  shows "detect_format ops hit =
     Inr (if truthy ops (dict_get src ''is_video'' PNone) then ''video''
          else if (case dict_get src ''url'' (PStr '''') of
                     PStr s \<Rightarrow> reddit_image_url s | _ \<Rightarrow> False)
                  \<or> truthy ops (dict_get src ''is_gallery'' PNone)
          then ''image'' else ''text'')"
proof (cases "truthy ops (dict_get src ''is_video'' PNone)")
  case True
  with assms(1) show ?thesis by (simp add: detect_format_def)
next
  case False
  with assms(2) have r: "readable_url ops (dict_get src ''url'' (PStr ''''))" by simp
  show ?thesis
  proof (cases "dict_get src ''url'' (PStr '''')")
    case (PStr s)
    with assms(1) False show ?thesis
      by (cases "s = []") (simp_all add: detect_format_def Let_def reddit_image_url_def)
  qed (use assms(1) False r in
        \<open>simp_all add: detect_format_def Let_def readable_url_def reddit_image_url_def\<close>)
qed

text \<open>
  Claim C10. A hit whose \<^verbatim>\<open>_source\<close> is missing, \<^verbatim>\<open>None\<close> or any other falsy value
  has the empty dictionary as its payload and is classified \<^verbatim>\<open>"text"\<close>; the loop body
  then returns and increments the text count only.
\<close>

theorem falsy_source_is_text:
  assumes "\<forall>v. map_of hit ''_source'' = Some v \<longrightarrow> \<not> truthy ops v"
  shows "safe_source ops hit = PDict []
     \<and> detect_format ops hit = Inr ''text''
     \<and> (\<exists>st'. process_hit ops (hit, calls) st = Inr st'
            \<and> t_ct st' = t_ct st + 1 \<and> v_ct st' = v_ct st \<and> i_ct st' = i_ct st)"
proof -
  from assms have src: "safe_source ops hit = PDict []" by (rule safe_source_falsy)
  then have fmt: "detect_format ops hit = Inr ''text''" by (rule detect_format_empty_source)
  have "\<exists>st'. process_hit ops (hit, calls) st = Inr st'
            \<and> t_ct st' = t_ct st + 1 \<and> v_ct st' = v_ct st \<and> i_ct st' = i_ct st"
    using fmt by (simp add: process_hit_def Let_def count_format_def add_landing_pages_def)
  with src fmt show ?thesis by blast
qed

theorem falsy_source_is_text_witness:
  "detect_format exact_ops [(''_id'', PInt 3)] = Inr ''text''
   \<and> detect_format exact_ops [(''_id'', PInt 4), (''_source'', PNone)] = Inr ''text''
   \<and> detect_format exact_ops [(''_id'', PInt 5), (''_source'', PList [])] = Inr ''text''
   \<and> safe_source exact_ops [(''_id'', PInt 6), (''_source'', PInt 0)] = PDict []"
proof -
  have "\<forall>v. map_of [(''_id'', PInt 3 :: rat pyval)] ''_source'' = Some v \<longrightarrow> \<not> truthy exact_ops v"
    by simp
  from falsy_source_is_text [OF this]
  have a: "detect_format exact_ops [(''_id'', PInt 3)] = Inr ''text''" by blast
  have "\<forall>v. map_of [(''_id'', PInt 4 :: rat pyval), (''_source'', PNone)] ''_source'' = Some v
          \<longrightarrow> \<not> truthy exact_ops v"
    by simp
  from falsy_source_is_text [OF this]
  have b: "detect_format exact_ops [(''_id'', PInt 4), (''_source'', PNone)] = Inr ''text''"
    by blast
  have "\<forall>v. map_of [(''_id'', PInt 5 :: rat pyval), (''_source'', PList [])] ''_source'' = Some v
          \<longrightarrow> \<not> truthy exact_ops v"
    by simp
  from falsy_source_is_text [OF this]
  have c: "detect_format exact_ops [(''_id'', PInt 5), (''_source'', PList [])] = Inr ''text''"
    by blast
  have "\<forall>v. map_of [(''_id'', PInt 6 :: rat pyval), (''_source'', PInt 0)] ''_source'' = Some v
          \<longrightarrow> \<not> truthy exact_ops v"
    by simp
  from falsy_source_is_text [OF this]
  have d: "safe_source exact_ops [(''_id'', PInt 6), (''_source'', PInt 0)] = PDict []"
    by blast
  from a b c d show ?thesis by simp
qed

text \<open>
  Claim C2. The classifier is not total. On \<open>list_url_hit\<close>, whose \<^verbatim>\<open>url\<close> is a
  non-empty list, \<^verbatim>\<open>re.match\<close> raises \<^verbatim>\<open>TypeError\<close>; the exception leaves
  \<^verbatim>\<open>detect_format\<close>, the loop body and the loop, whatever the extractors returned. A
  \<^verbatim>\<open>_source\<close> that is a non-empty string has no method \<^verbatim>\<open>get\<close> and raises
  \<^verbatim>\<open>AttributeError\<close>.
\<close>

theorem classifier_raises_on_list_url:
  "detect_format ops list_url_hit = Inl TypeError
   \<and> process_hit ops (list_url_hit, calls) st = Inl TypeError
   \<and> main_loop ops st ((list_url_hit, calls) # docs) = Inl TypeError
   \<and> detect_format ops [(''_id'', PStr ''p3''), (''_source'', PStr ''removed'')]
       = Inl AttributeError"
proof -
  have "detect_format ops list_url_hit = Inl TypeError"
    by (simp add: detect_format_def list_url_hit_def safe_source_def dict_get_def)
  moreover from this have "process_hit ops (list_url_hit, calls) st = Inl TypeError"
    by (simp add: process_hit_def Let_def)
  moreover from this have "main_loop ops st ((list_url_hit, calls) # docs) = Inl TypeError"
    by simp
  moreover have "detect_format ops [(''_id'', PStr ''p3''), (''_source'', PStr ''removed'')]
       = Inl AttributeError"
    by (simp add: detect_format_def safe_source_def dict_get_def)
  ultimately show ?thesis by blast
qed

text \<open>
  Claim C3. On \<open>gallery_hit\<close> the video signal is absent and the gallery flag is set, so
  the stated precedence gives \<^verbatim>\<open>"image"\<close>; its \<^verbatim>\<open>url\<close> is the number 5, and the
  classifier raises \<^verbatim>\<open>TypeError\<close> in \<^verbatim>\<open>re.match\<close> before it reads the flag. On the
  payloads it can read, the precedence is the one of \<open>detect_format_precedence\<close>.
\<close>

theorem classifier_raises_beside_gallery_flag:
  "safe_source ops gallery_hit = PDict [(''url'', PInt 5), (''is_gallery'', PBool True)]
   \<and> detect_format ops gallery_hit = Inl TypeError"
  by (simp add: detect_format_def gallery_hit_def safe_source_def dict_get_def)

section \<open>Properties of the aggregation loop\<close>

subsection \<open>One pass of the loop body\<close>

lemma count_format_fields [simp]:
  "doc_count (count_format fmt st) = doc_count st"
  "timestamp_list (count_format fmt st) = timestamp_list st"
  "format_list (count_format fmt st) = format_list st"
  "landing_pages (count_format fmt st) = landing_pages st"
  "landing_pages2 (count_format fmt st) = landing_pages2 st"
  "ids (count_format fmt st) = ids st"
  "impressions (count_format fmt st) = impressions st"
  "imp_ct (count_format fmt st) = imp_ct st"
  by (simp_all add: count_format_def)

lemma count_format_sum:
  "v_ct (count_format fmt st) + i_ct (count_format fmt st) + t_ct (count_format fmt st)
     = v_ct st + i_ct st + t_ct st + 1"
  by (simp add: count_format_def)

lemma add_landing_pages_fields [simp]:
  "doc_count (add_landing_pages ops i u st) = doc_count st"
  "timestamp_list (add_landing_pages ops i u st) = timestamp_list st"
  "format_list (add_landing_pages ops i u st) = format_list st"
  "ids (add_landing_pages ops i u st) = ids st"
  "impressions (add_landing_pages ops i u st) = impressions st"
  "imp_ct (add_landing_pages ops i u st) = imp_ct st"
  "v_ct (add_landing_pages ops i u st) = v_ct st"
  "i_ct (add_landing_pages ops i u st) = i_ct st"
  "t_ct (add_landing_pages ops i u st) = t_ct st"
  by (simp_all add: add_landing_pages_def)

lemma add_landing_pages_lists:
  "landing_pages (add_landing_pages ops i u st)
     = landing_pages st @ (if truthy ops u then [(i, u)] else [])"
  "landing_pages2 (add_landing_pages ops i u st)
     = landing_pages2 st @ (if truthy ops u then flat_items u else [])"
  by (simp_all add: add_landing_pages_def)

text \<open>The loop body raises exactly what the classifier raises.\<close>

lemma process_hit_Inl:
  "process_hit ops d st = Inl e \<longleftrightarrow> detect_format ops (fst d) = Inl e"
  by (simp add: process_hit_def Let_def split: sum.splits)

text \<open>What a pass that returns has done to each accumulator.\<close>

lemma process_hit_Inr:
  assumes "process_hit ops d st = Inr st'"
  shows "\<exists>fmt. detect_format ops (fst d) = Inr fmt
     \<and> doc_count st' = doc_count st + 1
     \<and> timestamp_list st' = timestamp_list st @ [(doc_id_of d, guarded (ut_timestamp (snd d)) None)]
     \<and> format_list st' = format_list st @ [(doc_id_of d, fmt)]
     \<and> v_ct st' = v_ct (count_format fmt st) \<and> i_ct st' = i_ct (count_format fmt st)
     \<and> t_ct st' = t_ct (count_format fmt st)
     \<and> landing_pages st' = landing_pages st
          @ (if truthy ops (filtered_urls_of d) then [(doc_id_of d, filtered_urls_of d)] else [])
     \<and> landing_pages2 st' = landing_pages2 st
          @ (if truthy ops (filtered_urls_of d) then flat_items (filtered_urls_of d) else [])
     \<and> ids st' = accumulate_ids (ids st) (guarded (ut_key_ids (snd d)) PNone)
     \<and> impressions st' = impressions st @ [(doc_id_of d, imp_val_of d)]
     \<and> imp_ct st' = add_impression ops (imp_ct st) (imp_val_of d)"
proof (cases "detect_format ops (fst d)")
  case (Inl e)
  with assms show ?thesis by (simp add: process_hit_def Let_def)
next
  case (Inr fmt)
  with assms have st': "st' =
    (let st1 = st\<lparr>doc_count := doc_count st + 1\<rparr>;
         st2 = st1\<lparr>timestamp_list := timestamp_list st1
                  @ [(doc_id_of d, guarded (ut_timestamp (snd d)) None)]\<rparr>;
         st3 = st2\<lparr>format_list := format_list st2 @ [(doc_id_of d, fmt)]\<rparr>;
         st4 = count_format fmt st3;
         st5 = add_landing_pages ops (doc_id_of d) (filtered_urls_of d) st4;
         st6 = st5\<lparr>ids := accumulate_ids (ids st5) (guarded (ut_key_ids (snd d)) PNone)\<rparr>;
         st7 = st6\<lparr>impressions := impressions st6 @ [(doc_id_of d, imp_val_of d)]\<rparr>
     in st7\<lparr>imp_ct := add_impression ops (imp_ct st7) (imp_val_of d)\<rparr>)"
    by (simp add: process_hit_def Let_def doc_id_of_def filtered_urls_of_def imp_val_of_def)
  show ?thesis
    unfolding st' Let_def using Inr
    by (simp add: add_landing_pages_lists count_format_def add_landing_pages_def)
qed

lemma accumulate_ids_prefix: "prefix ids_list (accumulate_ids ids_list v)"
  by (cases v) simp_all

text \<open>
  Claim C8. A failing extractor call is isolated. For each of the four extractors, the
  pass over a document whose call raised equals the pass over the same document with
  that call returning \<^verbatim>\<open>None\<close>: the other three values are accumulated as they are.
  The pass raises only what the classifier raises, never what an extractor raised. A
  pass that returns has incremented \<open>doc_count\<close>, has only appended to the lists, so the
  entries of earlier documents stay, and has recorded \<^verbatim>\<open>None\<close> for the failed field.
\<close>

theorem extractor_failure_isolated:
  "process_hit ops (hit, calls\<lparr>ut_timestamp := Inl e\<rparr>) st
     = process_hit ops (hit, calls\<lparr>ut_timestamp := Inr None\<rparr>) st
   \<and> process_hit ops (hit, calls\<lparr>ut_landing_pages := Inl e\<rparr>) st
     = process_hit ops (hit, calls\<lparr>ut_landing_pages := Inr PNone\<rparr>) st
   \<and> process_hit ops (hit, calls\<lparr>ut_key_ids := Inl e\<rparr>) st
     = process_hit ops (hit, calls\<lparr>ut_key_ids := Inr PNone\<rparr>) st
   \<and> process_hit ops (hit, calls\<lparr>ut_impressions := Inl e\<rparr>) st
     = process_hit ops (hit, calls\<lparr>ut_impressions := Inr PNone\<rparr>) st
   \<and> (process_hit ops (hit, calls) st = Inl e' \<longleftrightarrow> detect_format ops hit = Inl e')
   \<and> (process_hit ops (hit, calls) st = Inr st' \<longrightarrow>
        doc_count st' = doc_count st + 1
        \<and> prefix (timestamp_list st) (timestamp_list st')
        \<and> prefix (format_list st) (format_list st')
        \<and> prefix (landing_pages st) (landing_pages st')
        \<and> prefix (landing_pages2 st) (landing_pages2 st')
        \<and> prefix (ids st) (ids st')
        \<and> prefix (impressions st) (impressions st')
        \<and> (ut_timestamp calls = Inl e \<longrightarrow>
              timestamp_list st' = timestamp_list st @ [(dict_get hit ''_id'' PNone, None)])
        \<and> (ut_landing_pages calls = Inl e \<longrightarrow>
              landing_pages st' = landing_pages st \<and> landing_pages2 st' = landing_pages2 st)
        \<and> (ut_key_ids calls = Inl e \<longrightarrow> ids st' = ids st)
        \<and> (ut_impressions calls = Inl e \<longrightarrow>
              impressions st' = impressions st @ [(dict_get hit ''_id'' PNone, PNone)]
              \<and> imp_ct st' = imp_ct st))"
proof -
  have eqs:
    "process_hit ops (hit, calls\<lparr>ut_timestamp := Inl e\<rparr>) st
       = process_hit ops (hit, calls\<lparr>ut_timestamp := Inr None\<rparr>) st"
    "process_hit ops (hit, calls\<lparr>ut_landing_pages := Inl e\<rparr>) st
       = process_hit ops (hit, calls\<lparr>ut_landing_pages := Inr PNone\<rparr>) st"
    "process_hit ops (hit, calls\<lparr>ut_key_ids := Inl e\<rparr>) st
       = process_hit ops (hit, calls\<lparr>ut_key_ids := Inr PNone\<rparr>) st"
    "process_hit ops (hit, calls\<lparr>ut_impressions := Inl e\<rparr>) st
       = process_hit ops (hit, calls\<lparr>ut_impressions := Inr PNone\<rparr>) st"
    by (simp_all add: process_hit_def guarded_def Let_def split: sum.splits)
  have abort: "process_hit ops (hit, calls) st = Inl e' \<longleftrightarrow> detect_format ops hit = Inl e'"
    by (simp add: process_hit_Inl)
  have pass: "process_hit ops (hit, calls) st = Inr st' \<longrightarrow>
        doc_count st' = doc_count st + 1
        \<and> prefix (timestamp_list st) (timestamp_list st')
        \<and> prefix (format_list st) (format_list st')
        \<and> prefix (landing_pages st) (landing_pages st')
        \<and> prefix (landing_pages2 st) (landing_pages2 st')
        \<and> prefix (ids st) (ids st')
        \<and> prefix (impressions st) (impressions st')
        \<and> (ut_timestamp calls = Inl e \<longrightarrow>
              timestamp_list st' = timestamp_list st @ [(dict_get hit ''_id'' PNone, None)])
        \<and> (ut_landing_pages calls = Inl e \<longrightarrow>
              landing_pages st' = landing_pages st \<and> landing_pages2 st' = landing_pages2 st)
        \<and> (ut_key_ids calls = Inl e \<longrightarrow> ids st' = ids st)
        \<and> (ut_impressions calls = Inl e \<longrightarrow>
              impressions st' = impressions st @ [(dict_get hit ''_id'' PNone, PNone)]
              \<and> imp_ct st' = imp_ct st)"
  proof
    assume "process_hit ops (hit, calls) st = Inr st'"
    from process_hit_Inr [OF this] show "doc_count st' = doc_count st + 1
        \<and> prefix (timestamp_list st) (timestamp_list st')
        \<and> prefix (format_list st) (format_list st')
        \<and> prefix (landing_pages st) (landing_pages st')
        \<and> prefix (landing_pages2 st) (landing_pages2 st')
        \<and> prefix (ids st) (ids st')
        \<and> prefix (impressions st) (impressions st')
        \<and> (ut_timestamp calls = Inl e \<longrightarrow>
              timestamp_list st' = timestamp_list st @ [(dict_get hit ''_id'' PNone, None)])
        \<and> (ut_landing_pages calls = Inl e \<longrightarrow>
              landing_pages st' = landing_pages st \<and> landing_pages2 st' = landing_pages2 st)
        \<and> (ut_key_ids calls = Inl e \<longrightarrow> ids st' = ids st)
        \<and> (ut_impressions calls = Inl e \<longrightarrow>
              impressions st' = impressions st @ [(dict_get hit ''_id'' PNone, PNone)]
              \<and> imp_ct st' = imp_ct st)"
      by (auto simp: accumulate_ids_prefix guarded_def doc_id_of_def filtered_urls_of_def
            imp_val_of_def add_impression_def)
  qed
  from eqs abort pass show ?thesis by blast
qed

theorem extractor_failure_isolated_witness:
  "map_sum id doc_count (process_hit exact_ops failing_timestamp_doc (initial exact_ops)) = Inr 1
   \<and> map_sum id timestamp_list (process_hit exact_ops failing_timestamp_doc (initial exact_ops))
       = Inr [(PInt 7, None)]
   \<and> map_sum id landing_pages2 (process_hit exact_ops failing_timestamp_doc (initial exact_ops))
       = Inr [PStr ''u1'', PStr ''u2'']
   \<and> map_sum id ids (process_hit exact_ops failing_timestamp_doc (initial exact_ops))
       = Inr [PStr ''k'']
   \<and> map_sum id imp_ct (process_hit exact_ops failing_timestamp_doc (initial exact_ops)) = Inr 3"
proof -
  let ?d = "failing_timestamp_doc"
  let ?st0 = "initial exact_ops :: (rat, nat) accumulators"
  have "\<not> isl (process_hit exact_ops ?d ?st0)" by code_simp
  then obtain st' where run: "process_hit exact_ops (fst ?d, snd ?d) ?st0 = Inr st'"
    by (cases "process_hit exact_ops ?d ?st0") auto
  have failed: "ut_timestamp (snd ?d) = Inl OtherError"
    by (simp add: failing_timestamp_doc_def)
  from extractor_failure_isolated [where ops = exact_ops and hit = "fst ?d"
      and calls = "snd ?d" and e = OtherError and st = ?st0 and st' = st'] run failed
  have "doc_count st' = doc_count ?st0 + 1"
    "timestamp_list st' = timestamp_list ?st0 @ [(dict_get (fst ?d) ''_id'' PNone, None)]"
    by blast+
  then have "doc_count st' = 1" "timestamp_list st' = [(PInt 7, None)]"
    by (simp_all add: initial_def dict_get_def failing_timestamp_doc_def)
  moreover have
    "map_sum id landing_pages2 (process_hit exact_ops ?d ?st0) = Inr [PStr ''u1'', PStr ''u2'']"
    "map_sum id ids (process_hit exact_ops ?d ?st0) = Inr [PStr ''k'']"
    "map_sum id imp_ct (process_hit exact_ops ?d ?st0) = Inr 3"
    by code_simp+
  ultimately show ?thesis using run by simp
qed

subsection \<open>The whole loop\<close>

lemma main_loop_Cons_Inr:
  assumes "main_loop ops st (d # docs) = Inr st'"
  obtains st1 where "process_hit ops d st = Inr st1" "main_loop ops st1 docs = Inr st'"
  using assms by (auto split: sum.splits)

lemma main_loop_counts:
  "main_loop ops st docs = Inr st' \<Longrightarrow>
     doc_count st' = doc_count st + length docs
     \<and> length (timestamp_list st') = length (timestamp_list st) + length docs
     \<and> length (format_list st') = length (format_list st) + length docs
     \<and> length (impressions st') = length (impressions st) + length docs
     \<and> v_ct st' + i_ct st' + t_ct st' = v_ct st + i_ct st + t_ct st + length docs"
proof (induction docs arbitrary: st)
  case Nil
  then show ?case by simp
next
  case (Cons d docs)
  from Cons.prems obtain st1 where st1: "process_hit ops d st = Inr st1"
    and rest: "main_loop ops st1 docs = Inr st'"
    by (rule main_loop_Cons_Inr)
  from process_hit_Inr [OF st1] obtain fmt where
    "doc_count st1 = doc_count st + 1"
    "length (timestamp_list st1) = length (timestamp_list st) + 1"
    "length (format_list st1) = length (format_list st) + 1"
    "length (impressions st1) = length (impressions st) + 1"
    "v_ct st1 = v_ct (count_format fmt st)" "i_ct st1 = i_ct (count_format fmt st)"
    "t_ct st1 = t_ct (count_format fmt st)"
    by auto
  moreover note count_format_sum [of fmt st] Cons.IH [OF rest]
  ultimately show ?case by simp
qed

lemma main_loop_landing_pages:
  "main_loop ops st docs = Inr st' \<Longrightarrow>
     landing_pages st' = landing_pages st
        @ map (\<lambda>d. (doc_id_of d, filtered_urls_of d))
            (filter (\<lambda>d. truthy ops (filtered_urls_of d)) docs)
     \<and> landing_pages2 st' = landing_pages2 st
        @ concat (map (\<lambda>d. flat_items (filtered_urls_of d))
            (filter (\<lambda>d. truthy ops (filtered_urls_of d)) docs))"
proof (induction docs arbitrary: st)
  case Nil
  then show ?case by simp
next
  case (Cons d docs)
  from Cons.prems obtain st1 where st1: "process_hit ops d st = Inr st1"
    and rest: "main_loop ops st1 docs = Inr st'"
    by (rule main_loop_Cons_Inr)
  from process_hit_Inr [OF st1] have
    "landing_pages st1 = landing_pages st
          @ (if truthy ops (filtered_urls_of d) then [(doc_id_of d, filtered_urls_of d)] else [])"
    "landing_pages2 st1 = landing_pages2 st
          @ (if truthy ops (filtered_urls_of d) then flat_items (filtered_urls_of d) else [])"
    by auto
  with Cons.IH [OF rest] show ?case by simp
qed

lemma add_impression_contribution:
  "add_impression ops ct v
     = (case contribution ops v of None \<Rightarrow> ct | Some x \<Rightarrow> float_add ops ct x)"
  by (simp add: add_impression_def contribution_def split: sum.splits)

lemma main_loop_imp_ct:
  "main_loop ops st docs = Inr st' \<Longrightarrow>
     imp_ct st' = foldl (float_add ops) (imp_ct st)
        (List.map_filter (contribution ops) (map imp_val_of docs))"
proof (induction docs arbitrary: st)
  case Nil
  then show ?case by (simp add: List.map_filter_simps)
next
  case (Cons d docs)
  from Cons.prems obtain st1 where st1: "process_hit ops d st = Inr st1"
    and rest: "main_loop ops st1 docs = Inr st'"
    by (rule main_loop_Cons_Inr)
  from process_hit_Inr [OF st1]
  have "imp_ct st1 = add_impression ops (imp_ct st) (imp_val_of d)" by auto
  with Cons.IH [OF rest] show ?case
    by (simp add: List.map_filter_simps add_impression_contribution split: option.splits)
qed

text \<open>The loop runs to the end of every stream of readable payloads.\<close>

lemma main_loop_returns:
  "(\<forall>d\<in>set docs. readable_hit ops (fst d)) \<Longrightarrow> \<exists>st'. main_loop ops st docs = Inr st'"
proof (induction docs arbitrary: st)
  case Nil
  then show ?case by simp
next
  case (Cons d docs)
  then have "readable_hit ops (fst d)" by simp
  then obtain fmt where "detect_format ops (fst d) = Inr fmt"
    using detect_format_readable by blast
  then obtain st1 where "process_hit ops d st = Inr st1"
    by (cases "process_hit ops d st") (auto simp: process_hit_Inl)
  with Cons show ?case by simp
qed

lemma item_count_flat_items: "item_count v = length (flat_items v)"
  by (cases v) (simp_all add: item_count_def)

text \<open>
  Claim C4. When the loop has exhausted the stream, the three format counts add up to
  \<open>doc_count\<close>, which is the length of the format entries, of the timestamp entries and
  of the impression entries, and the number of documents of the stream.
\<close>

theorem counts_agree:
  assumes "main_loop ops (initial ops) docs = Inr st"
  shows "v_ct st + i_ct st + t_ct st = doc_count st
     \<and> doc_count st = length (format_list st)
     \<and> doc_count st = length (timestamp_list st)
     \<and> doc_count st = length (impressions st)
     \<and> doc_count st = length docs"
  using main_loop_counts [OF assms] by (simp add: initial_def)

theorem counts_agree_witness:
  "map_sum id (\<lambda>st. v_ct st + i_ct st + t_ct st)
       (main_loop exact_ops (initial exact_ops) three_records) = Inr 3
   \<and> map_sum id doc_count (main_loop exact_ops (initial exact_ops) three_records) = Inr 3
   \<and> map_sum id (\<lambda>st. length (format_list st))
       (main_loop exact_ops (initial exact_ops) three_records) = Inr 3
   \<and> map_sum id (\<lambda>st. length (timestamp_list st))
       (main_loop exact_ops (initial exact_ops) three_records) = Inr 3
   \<and> map_sum id (\<lambda>st. length (impressions st))
       (main_loop exact_ops (initial exact_ops) three_records) = Inr 3"
proof -
  have "\<not> isl (main_loop exact_ops (initial exact_ops) three_records)" by code_simp
  then obtain st where run: "main_loop exact_ops (initial exact_ops) three_records = Inr st"
    by (cases "main_loop exact_ops (initial exact_ops) three_records") auto
  have "length three_records = 3" by (simp add: three_records_def)
  with counts_agree [OF run] show ?thesis using run by simp
qed

text \<open>
  Claim C9. When the loop has exhausted the stream, the landing-page entries are, in
  stream order, the documents whose landing-pages value is non-empty in Python's sense
  (the test is \<^verbatim>\<open>if filtered_urls:\<close>; a failed call counts as \<^verbatim>\<open>None\<close>), so they are at
  most \<open>doc_count\<close>; the flat list holds the items of those values, and its length is
  the sum of their item counts: the length of a list, 1 for any other value.
\<close>

theorem landing_pages_entries:
  assumes "main_loop ops (initial ops) docs = Inr st"
  shows "landing_pages st
       = map (\<lambda>d. (doc_id_of d, filtered_urls_of d))
           (filter (\<lambda>d. truthy ops (filtered_urls_of d)) docs)
     \<and> length (landing_pages st) \<le> doc_count st
     \<and> landing_pages2 st
       = concat (map (\<lambda>d. flat_items (filtered_urls_of d))
           (filter (\<lambda>d. truthy ops (filtered_urls_of d)) docs))
     \<and> length (landing_pages2 st)
       = sum_list (map (\<lambda>d. item_count (filtered_urls_of d))
           (filter (\<lambda>d. truthy ops (filtered_urls_of d)) docs))"
proof -
  let ?bearing = "filter (\<lambda>d. truthy ops (filtered_urls_of d)) docs"
  from main_loop_landing_pages [OF assms]
  have lp: "landing_pages st = map (\<lambda>d. (doc_id_of d, filtered_urls_of d)) ?bearing"
    and lp2: "landing_pages2 st = concat (map (\<lambda>d. flat_items (filtered_urls_of d)) ?bearing)"
    by (simp_all add: initial_def)
  from main_loop_counts [OF assms] have "doc_count st = length docs"
    by (simp add: initial_def)
  moreover have "length ?bearing \<le> length docs" by (rule length_filter_le)
  ultimately have le: "length (landing_pages st) \<le> doc_count st" using lp by simp
  have "length (landing_pages2 st)
       = sum_list (map (\<lambda>d. item_count (filtered_urls_of d)) ?bearing)"
    unfolding lp2 by (simp add: length_concat item_count_flat_items comp_def)
  with lp le lp2 show ?thesis by blast
qed

theorem landing_pages_entries_witness:
  "map_sum id landing_pages (main_loop exact_ops (initial exact_ops) landing_example)
     = Inr [(PInt 1, PList [PStr ''a'', PStr ''b'']), (PInt 3, PStr ''c'')]
   \<and> map_sum id landing_pages2 (main_loop exact_ops (initial exact_ops) landing_example)
     = Inr [PStr ''a'', PStr ''b'', PStr ''c'']
   \<and> map_sum id (\<lambda>st. length (landing_pages2 st))
       (main_loop exact_ops (initial exact_ops) landing_example) = Inr 3"
proof -
  have "\<not> isl (main_loop exact_ops (initial exact_ops) landing_example)" by code_simp
  then obtain st where run: "main_loop exact_ops (initial exact_ops) landing_example = Inr st"
    by (cases "main_loop exact_ops (initial exact_ops) landing_example") auto
  have "map (\<lambda>d. (doc_id_of d, filtered_urls_of d))
           (filter (\<lambda>d. truthy exact_ops (filtered_urls_of d)) landing_example)
         = [(PInt 1, PList [PStr ''a'', PStr ''b'']), (PInt 3, PStr ''c'')]"
    "concat (map (\<lambda>d. flat_items (filtered_urls_of d))
           (filter (\<lambda>d. truthy exact_ops (filtered_urls_of d)) landing_example))
         = [PStr ''a'', PStr ''b'', PStr ''c'']"
    "sum_list (map (\<lambda>d. item_count (filtered_urls_of d))
           (filter (\<lambda>d. truthy exact_ops (filtered_urls_of d)) landing_example)) = 3"
    by code_simp+
  with landing_pages_entries [OF run] show ?thesis using run by simp
qed

subsection \<open>The impressions aggregate\<close>

lemma main_Inr:
  assumes "main ops docs = Inr r"
  obtains st where "main_loop ops (initial ops) docs = Inr st"
    "impressions_total r = imp_ct st" "doc_count_processed r = doc_count st"
  using assms by (auto simp: main_def split: sum.splits)

text \<open>
  Claim C1, as the loop computes it. The final impressions aggregate is the float sum,
  accumulated in stream order from \<^verbatim>\<open>0.0\<close>, of what each impressions value contributes:
  its numeric value when it is not null and \<^verbatim>\<open>float\<close> converts it; exactly 1 when it
  is not null, \<^verbatim>\<open>float\<close> raises and the value is truthy; nothing when it is null, or
  when \<^verbatim>\<open>float\<close> raises and the value is falsy (the empty string, an empty list).
\<close>

theorem impressions_total_sum:
  assumes "main ops docs = Inr r"
  shows "impressions_total r
     = float_sum ops (List.map_filter (contribution ops) (map imp_val_of docs))"
proof -
  from assms obtain st where run: "main_loop ops (initial ops) docs = Inr st"
    and total: "impressions_total r = imp_ct st"
    by (rule main_Inr)
  from main_loop_imp_ct [OF run] total show ?thesis
    by (simp add: float_sum_def initial_def)
qed

text \<open>The scenario of the specification: 10 + 1 + 0 + 5 = 16.\<close>

theorem impressions_total_sum_witness:
  "map_sum id impressions_total (main exact_ops four_impressions) = Inr 16"
proof -
  have "\<not> isl (main exact_ops four_impressions)" by code_simp
  then obtain r where run: "main exact_ops four_impressions = Inr r"
    by (cases "main exact_ops four_impressions") auto
  have "float_sum exact_ops
      (List.map_filter (contribution exact_ops) (map imp_val_of four_impressions)) = 16"
    by code_simp
  with impressions_total_sum [OF run] show ?thesis using run by simp
qed

text \<open>
  The claim as the specification words it fails on a value that is not null, does not
  convert and is falsy: for the one document whose impressions value is the empty
  string, \<^verbatim>\<open>float("")\<close> raises, \<^verbatim>\<open>if imp_val:\<close> is false and the aggregate stays 0, where
  the specified term is 1.
\<close>

theorem impressions_fallback_counterexample:
  "map_sum id impressions_total (main exact_ops empty_string_impression) = Inr 0
   \<and> float_sum exact_ops
       (map (specified_term exact_ops) (map imp_val_of empty_string_impression)) = 1"
  by code_simp

section \<open>Properties of the summary\<close>

subsection \<open>The sort\<close>

text \<open>
  On the keys of entries, Python's comparison never raises: two keys either differ in
  their flag or are both null or both timestamps. It is then the strict lexicographic
  order of the pairs, with \<open>False\<close> before \<open>True\<close>.
\<close>

lemma key_lt_sort_key_of:
  "key_lt (sort_key_of y) (sort_key_of x) = Inr (sort_key_of y < sort_key_of x)"
  by (cases "snd x"; cases "snd y") (auto simp: key_lt_def sort_key_of_def)

lemma sort_insert_insort: "sort_insert x ys = Inr (insort_key sort_key_of x ys)"
  by (induction ys) (auto simp: key_lt_sort_key_of split: bool.splits)

text \<open>So the sort returns, and returns what insertion sort by that key returns.\<close>

lemma list_sort_sort_key: "list_sort xs = Inr (sort_key sort_key_of xs)"
  by (induction xs) (simp_all add: sort_insert_insort)

lemma sort_key_of_le_iff:
  "sort_key_of x \<le> sort_key_of y \<longleftrightarrow>
     (case (snd x, snd y) of
        (Some a, Some b) \<Rightarrow> a \<le> b
      | (Some a, None) \<Rightarrow> True
      | (None, Some b) \<Rightarrow> False
      | (None, None) \<Rightarrow> True)"
  by (cases "snd x"; cases "snd y") (auto simp: sort_key_of_def)

lemma sorted_keys_nulls_last:
  assumes "sorted (map sort_key_of ys)" "i < length ys" "j < length ys"
    "snd (ys ! i) = None" "snd (ys ! j) \<noteq> None"
  shows "j < i"
proof (rule ccontr)
  assume "\<not> j < i"
  then have "i \<le> j" by simp
  with assms(1,3) have "map sort_key_of ys ! i \<le> map sort_key_of ys ! j"
    by (simp add: sorted_iff_nth_mono)
  with assms(2,3) have "sort_key_of (ys ! i) \<le> sort_key_of (ys ! j)" by simp
  with assms(4,5) show False by (auto simp: sort_key_of_le_iff)
qed

lemma sorted_keys_ascending:
  assumes "sorted (map sort_key_of ys)" "i \<le> j" "j < length ys"
    "snd (ys ! i) = Some a" "snd (ys ! j) = Some b"
  shows "a \<le> b"
proof -
  from assms(1,2,3) have "map sort_key_of ys ! i \<le> map sort_key_of ys ! j"
    by (simp add: sorted_iff_nth_mono)
  with assms(2,3) have "sort_key_of (ys ! i) \<le> sort_key_of (ys ! j)" by simp
  with assms(4,5) show ?thesis by (simp add: sort_key_of_le_iff)
qed

lemma sort_stable:
  "filter (\<lambda>e. snd e = k) (sort_key sort_key_of xs) = filter (\<lambda>e. snd e = k) xs"
proof -
  have "(\<lambda>e::'a \<times> 'b option. snd e = k) = (\<lambda>e. sort_key_of e = (k = None, k))"
    by (auto simp: sort_key_of_def)
  then show ?thesis by (simp only: sort_key_stable)
qed

lemma sort_all_none:
  fixes xs :: "('i \<times> ('t::linorder) option) list"
  assumes "\<forall>e\<in>set xs. snd e = None"
  shows "sort_key sort_key_of xs = xs"
proof -
  have "filter (\<lambda>e. snd e = None) (sort_key sort_key_of xs) = filter (\<lambda>e. snd e = None) xs"
    by (rule sort_stable)
  moreover have "filter (\<lambda>e. snd e = None) xs = xs" using assms by simp
  moreover have "filter (\<lambda>e. snd e = None) (sort_key sort_key_of xs) = sort_key sort_key_of xs"
    using assms by simp
  ultimately show ?thesis by simp
qed

text \<open>
  Claim C5. For every list of entries whose timestamps are linearly ordered, the sort
  returns a permutation \<open>ys\<close> of the list in which every entry with a null timestamp
  stands after every entry with a timestamp, the timestamps ascend, and the entries
  with one and the same timestamp, as well as the null entries, keep the order they
  had before the sort.
\<close>

theorem timestamp_sort_order:
  fixes xs :: "('i \<times> ('t::linorder) option) list"
  shows "\<exists>ys. list_sort xs = Inr ys \<and> mset ys = mset xs
      \<and> (\<forall>i j. i < length ys \<and> j < length ys \<and> snd (ys ! i) = None \<and> snd (ys ! j) \<noteq> None
            \<longrightarrow> j < i)
      \<and> (\<forall>i j a b. i \<le> j \<and> j < length ys \<and> snd (ys ! i) = Some a \<and> snd (ys ! j) = Some b
            \<longrightarrow> a \<le> b)
      \<and> (\<forall>k. filter (\<lambda>e. snd e = k) ys = filter (\<lambda>e. snd e = k) xs)"
proof -
  let ?ys = "sort_key sort_key_of xs"
  have s: "sorted (map sort_key_of ?ys)" by simp
  have "list_sort xs = Inr ?ys" by (rule list_sort_sort_key)
  moreover have "mset ?ys = mset xs" by simp
  moreover have "\<forall>i j. i < length ?ys \<and> j < length ?ys \<and> snd (?ys ! i) = None
      \<and> snd (?ys ! j) \<noteq> None \<longrightarrow> j < i"
    using sorted_keys_nulls_last [OF s] by blast
  moreover have "\<forall>i j a b. i \<le> j \<and> j < length ?ys \<and> snd (?ys ! i) = Some a
      \<and> snd (?ys ! j) = Some b \<longrightarrow> a \<le> b"
    using sorted_keys_ascending [OF s] by blast
  moreover have "\<forall>k. filter (\<lambda>e. snd e = k) ?ys = filter (\<lambda>e. snd e = k) xs"
    by (simp add: sort_stable)
  ultimately show ?thesis by blast
qed

theorem timestamp_sort_order_witness:
  "list_sort sort_example = Inr sort_example_sorted
   \<and> mset sort_example_sorted = mset sort_example
   \<and> filter (\<lambda>e. snd e = Some 5) sort_example_sorted = [(2, Some 5), (4, Some 5)]
   \<and> filter (\<lambda>e. snd e = None) sort_example_sorted = [(1, None), (5, None)]"
proof -
  have s: "list_sort sort_example = Inr sort_example_sorted" by code_simp
  from timestamp_sort_order [of sort_example] s
  have "mset sort_example_sorted = mset sort_example"
    and st: "\<forall>k. filter (\<lambda>e. snd e = k) sort_example_sorted = filter (\<lambda>e. snd e = k) sort_example"
    by auto
  moreover from st
  have "filter (\<lambda>e. snd e = Some 5) sort_example_sorted = [(2, Some 5), (4, Some 5)]"
    "filter (\<lambda>e. snd e = None) sort_example_sorted = [(1, None), (5, None)]"
    by (simp_all add: sort_example_def)
  ultimately show ?thesis using s by simp
qed

text \<open>
  Claim C6. Sorting is idempotent: the sort returns, and sorting its result again with
  the same key returns the same list.
\<close>

theorem timestamp_sort_idempotent:
  fixes xs :: "('i \<times> ('t::linorder) option) list"
  shows "\<exists>ys. list_sort xs = Inr ys \<and> list_sort ys = Inr ys"
proof -
  let ?ys = "sort_key sort_key_of xs"
  have "sort_key sort_key_of ?ys = ?ys" by (rule sort_key_id_if_sorted) simp
  then have "list_sort ?ys = Inr ?ys" by (simp add: list_sort_sort_key)
  moreover have "list_sort xs = Inr ?ys" by (rule list_sort_sort_key)
  ultimately show ?thesis by blast
qed

theorem timestamp_sort_idempotent_witness:
  "list_sort sort_example = Inr sort_example_sorted
   \<and> list_sort sort_example_sorted = Inr sort_example_sorted"
proof -
  have s: "list_sort sort_example = Inr sort_example_sorted" by code_simp
  with timestamp_sort_idempotent [of sort_example] show ?thesis by auto
qed

subsection \<open>The date range\<close>

lemma last_filter_index:
  "filter P ys \<noteq> [] \<Longrightarrow>
     \<exists>i<length ys. last (filter P ys) = ys ! i \<and> P (ys ! i)
        \<and> (\<forall>j. i < j \<and> j < length ys \<longrightarrow> \<not> P (ys ! j))"
proof (induction ys rule: rev_induct)
  case Nil
  then show ?case by simp
next
  case (snoc y ys)
  show ?case
  proof (cases "P y")
    case True
    then have "last (filter P (ys @ [y])) = (ys @ [y]) ! length ys" by simp
    moreover have "P ((ys @ [y]) ! length ys)" using True by simp
    ultimately show ?thesis by (intro exI [of _ "length ys"]) auto
  next
    case False
    with snoc.prems have "filter P ys \<noteq> []" by simp
    from snoc.IH [OF this] obtain i where i: "i < length ys" "last (filter P ys) = ys ! i"
      "P (ys ! i)" "\<forall>j. i < j \<and> j < length ys \<longrightarrow> \<not> P (ys ! j)" by blast
    have "\<forall>j. i < j \<and> j < length (ys @ [y]) \<longrightarrow> \<not> P ((ys @ [y]) ! j)"
      using i(4) False by (auto simp: nth_append)
    moreover have "last (filter P (ys @ [y])) = (ys @ [y]) ! i" "P ((ys @ [y]) ! i)"
      using i(1,2,3) False by (simp_all add: nth_append)
    ultimately show ?thesis using i(1) by (intro exI [of _ i]) auto
  qed
qed

lemma date_range_Nil: "date_range [] = (None, None)"
  by (simp add: date_range_def)

lemma date_range_start: "tsl \<noteq> [] \<Longrightarrow> fst (date_range tsl) = Some (tsl ! 0)"
  by (cases tsl) (simp_all add: date_range_def Let_def)

lemma date_range_last_non_none:
  assumes "\<exists>e\<in>set tsl. snd e \<noteq> None"
  shows "\<exists>i<length tsl. snd (date_range tsl) = Some (tsl ! i) \<and> snd (tsl ! i) \<noteq> None
           \<and> (\<forall>j. i < j \<and> j < length tsl \<longrightarrow> snd (tsl ! j) = None)"
proof -
  from assms have ne: "filter (\<lambda>t. snd t \<noteq> None) tsl \<noteq> []"
    by (simp add: filter_empty_conv)
  then have "tsl \<noteq> []" by auto
  then have "snd (date_range tsl) = Some (last (filter (\<lambda>t. snd t \<noteq> None) tsl))"
    using ne by (cases tsl) (simp_all add: date_range_def Let_def)
  with last_filter_index [OF ne] show ?thesis by auto
qed

lemma date_range_last_all_none:
  assumes "tsl \<noteq> []" "\<forall>e\<in>set tsl. snd e = None"
  shows "snd (date_range tsl) = Some (tsl ! (length tsl - 1))"
proof -
  from assms(2) have "filter (\<lambda>t. snd t \<noteq> None) tsl = []"
    by (simp add: filter_empty_conv)
  with assms(1) show ?thesis
    by (cases tsl) (simp_all add: date_range_def Let_def last_conv_nth)
qed

text \<open>
  Claim C7. Let \<open>ys\<close> be the sorted timestamp entries. For an empty list both ends of
  the date range are \<^verbatim>\<open>None\<close>, the value that stands for "no data". Otherwise the start
  entry is the first element of \<open>ys\<close>. If some entry has a timestamp, the last entry is
  the entry of \<open>ys\<close> at the greatest position with a timestamp; if every timestamp is
  null, the sort has left the list as it was and the last entry is its last element.
\<close>

theorem date_range_after_sort:
  fixes xs :: "('i \<times> ('t::linorder) option) list"
  shows "\<exists>ys. list_sort xs = Inr ys \<and> length ys = length xs
      \<and> (xs = [] \<longrightarrow> date_range ys = (None, None))
      \<and> (xs \<noteq> [] \<longrightarrow> fst (date_range ys) = Some (ys ! 0))
      \<and> ((\<exists>e\<in>set xs. snd e \<noteq> None) \<longrightarrow>
            (\<exists>i<length ys. snd (date_range ys) = Some (ys ! i) \<and> snd (ys ! i) \<noteq> None
               \<and> (\<forall>j. i < j \<and> j < length ys \<longrightarrow> snd (ys ! j) = None)))
      \<and> (xs \<noteq> [] \<and> (\<forall>e\<in>set xs. snd e = None) \<longrightarrow>
            ys = xs \<and> snd (date_range ys) = Some (ys ! (length ys - 1)))"
proof -
  let ?ys = "sort_key sort_key_of xs"
  have "list_sort xs = Inr ?ys" by (rule list_sort_sort_key)
  moreover have "length ?ys = length xs" by simp
  moreover have "xs = [] \<longrightarrow> date_range ?ys = (None, None)"
    by (simp add: date_range_Nil)
  moreover have "xs \<noteq> [] \<longrightarrow> fst (date_range ?ys) = Some (?ys ! 0)"
  proof
    assume "xs \<noteq> []"
    then have "?ys \<noteq> []" by (metis length_sort length_0_conv)
    then show "fst (date_range ?ys) = Some (?ys ! 0)" by (rule date_range_start)
  qed
  moreover have "(\<exists>e\<in>set xs. snd e \<noteq> None) \<longrightarrow>
            (\<exists>i<length ?ys. snd (date_range ?ys) = Some (?ys ! i) \<and> snd (?ys ! i) \<noteq> None
               \<and> (\<forall>j. i < j \<and> j < length ?ys \<longrightarrow> snd (?ys ! j) = None))"
  proof
    assume "\<exists>e\<in>set xs. snd e \<noteq> None"
    then have "\<exists>e\<in>set ?ys. snd e \<noteq> None" by simp
    then show "\<exists>i<length ?ys. snd (date_range ?ys) = Some (?ys ! i) \<and> snd (?ys ! i) \<noteq> None
               \<and> (\<forall>j. i < j \<and> j < length ?ys \<longrightarrow> snd (?ys ! j) = None)"
      by (rule date_range_last_non_none)
  qed
  moreover have "xs \<noteq> [] \<and> (\<forall>e\<in>set xs. snd e = None) \<longrightarrow>
            ?ys = xs \<and> snd (date_range ?ys) = Some (?ys ! (length ?ys - 1))"
  proof
    assume a: "xs \<noteq> [] \<and> (\<forall>e\<in>set xs. snd e = None)"
    then have "?ys = xs" by (simp add: sort_all_none)
    moreover have "snd (date_range xs) = Some (xs ! (length xs - 1))"
      using a by (simp add: date_range_last_all_none)
    ultimately show "?ys = xs \<and> snd (date_range ?ys) = Some (?ys ! (length ?ys - 1))" by simp
  qed
  ultimately show ?thesis by blast
qed

text \<open>
  The theorem at three lists: one with ties and nulls, one with nulls only, the empty
  one; and the date range of the specification's first scenario, (2, 50) to (1, 100).
\<close>

theorem date_range_after_sort_witness:
  "list_sort sort_example = Inr sort_example_sorted
   \<and> date_range sort_example_sorted = (Some (3, Some 2), Some (4, Some 5))
   \<and> list_sort all_null_example = Inr all_null_example
   \<and> date_range all_null_example = (Some (2, None), Some (1, None))
   \<and> list_sort ([] :: (nat \<times> nat option) list) = Inr []
   \<and> date_range ([] :: (nat \<times> nat option) list) = (None, None)
   \<and> map_sum id start_date (main exact_ops three_records) = Inr (Some (PInt 2, Some 50))
   \<and> map_sum id last_date (main exact_ops three_records) = Inr (Some (PInt 1, Some 100))"
proof -
  have s: "list_sort sort_example = Inr sort_example_sorted" by code_simp
  have ne: "sort_example \<noteq> []" by (simp add: sort_example_def)
  from date_range_after_sort [of sort_example] s ne
  have "fst (date_range sort_example_sorted) = Some (sort_example_sorted ! 0)" by auto
  then have a1: "fst (date_range sort_example_sorted) = Some (3, Some 2)"
    by (simp add: sort_example_sorted_def)
  have a2: "snd (date_range sort_example_sorted) = Some (4, Some 5)" by code_simp
  have a: "date_range sort_example_sorted = (Some (3, Some 2), Some (4, Some 5))"
    using a1 a2 by (simp add: prod_eq_iff)
  have n: "all_null_example \<noteq> [] \<and> (\<forall>e\<in>set all_null_example. snd e = None)"
    by (simp add: all_null_example_def)
  from date_range_after_sort [of all_null_example] n
  obtain ys where ys: "list_sort all_null_example = Inr ys" "ys = all_null_example"
    "fst (date_range ys) = Some (ys ! 0)" "snd (date_range ys) = Some (ys ! (length ys - 1))"
    by auto
  then have b: "list_sort all_null_example = Inr all_null_example"
    "date_range all_null_example = (Some (2, None), Some (1, None))"
    by (simp_all add: prod_eq_iff all_null_example_def)
  from date_range_after_sort [of "[] :: (nat \<times> nat option) list"]
  have c: "list_sort ([] :: (nat \<times> nat option) list) = Inr []"
    "date_range ([] :: (nat \<times> nat option) list) = (None, None)"
    by auto
  have d: "map_sum id start_date (main exact_ops three_records) = Inr (Some (PInt 2, Some 50))"
    "map_sum id last_date (main exact_ops three_records) = Inr (Some (PInt 1, Some 100))"
    by code_simp+
  from s a b c d show ?thesis by simp
qed

end
